theory Spec2Isabelle
  imports Main "HOL-Library.Sublist" "HOL-Library.Word"
begin

section \<open>Python values\<close>

text \<open>
  A Python \<^verbatim>\<open>str\<close> is a sequence of Unicode code points, so it is modelled as the list
  of its code points. \<open>u\<close> turns an ASCII literal into such a list; the two Chinese
  words of the duration format and the title placeholder are written as code points.
\<close>

type_synonym ustr = "nat list"

definition u :: "string \<Rightarrow> ustr" where
  "u s = map of_char s"

text \<open>\<^verbatim>\<open>str.isspace\<close>: the code points that \<^verbatim>\<open>str.strip()\<close> removes.\<close>

definition isspace :: "nat \<Rightarrow> bool" where
  "isspace c = (c \<in> set [9, 10, 11, 12, 13, 28, 29, 30, 31, 32, 133, 160, 5760,
      8192, 8193, 8194, 8195, 8196, 8197, 8198, 8199, 8200, 8201, 8202,
      8232, 8233, 8239, 8287, 12288])"

definition strip :: "ustr \<Rightarrow> ustr" where
  "strip s = rev (dropWhile isspace (rev (dropWhile isspace s)))"

text \<open>
  \<^verbatim>\<open>s.replace(old, new)\<close>: every occurrence of \<open>old\<close>, found from the left and without
  overlap, is replaced by \<open>new\<close>. With an empty \<open>old\<close> Python puts \<open>new\<close> before every
  code point and at the end.
\<close>

function replace :: "ustr \<Rightarrow> ustr \<Rightarrow> ustr \<Rightarrow> ustr" where
  "replace old new [] = (if old = [] then new else [])"
| "replace old new (c # cs) =
     (if old = [] then new @ c # replace old new cs
      else if prefix old (c # cs) then new @ replace old new (drop (length old) (c # cs))
      else c # replace old new cs)"
  by pat_completeness auto
termination
  by (relation "measure (\<lambda>(old, new, s). length s)") auto

text \<open>
  Decoded JSON, as \<^verbatim>\<open>json.loads\<close> returns it: \<^verbatim>\<open>None\<close>, a bool, an int, a float (its
  64 bits), a str, a list, or a dict (the association list of its items; the first
  binding of a key is the dict's value for it).
\<close>

datatype json =
    JNull
  | JBool bool
  | JInt int
  | JFloat "64 word"
  | JStr ustr
  | JList "json list"
  | JDict "(ustr \<times> json) list"

text \<open>
  What the program uses and the repository does not contain: \<^verbatim>\<open>json.loads\<close> (\<open>None\<close>
  when it raises), the decimal digits of Unicode beyond ASCII with their values (what
  \<^verbatim>\<open>\d\<close> matches and \<^verbatim>\<open>int\<close> reads), and \<^verbatim>\<open>str(x)\<close> of a float, a list or a dict.
\<close>

record pyenv =
  json_loads :: "ustr \<Rightarrow> json option"
  nd_digit :: "nat \<Rightarrow> nat option"
  repr_other :: "json \<Rightarrow> ustr"

text \<open>Exceptions; \<open>DriverError\<close> stands for any exception of the page driver.\<close>

datatype pyerr = AttributeError | TypeError | KeyError | IndexError | ValueError | DriverError

fun bind :: "pyerr + 'a \<Rightarrow> ('a \<Rightarrow> pyerr + 'b) \<Rightarrow> pyerr + 'b" where
  "bind (Inl e) f = Inl e"
| "bind (Inr x) f = f x"

text \<open>A \<^verbatim>\<open>for\<close> loop over a list whose body may raise: the first exception ends it.\<close>

fun fold_r :: "('s \<Rightarrow> 'a \<Rightarrow> pyerr + 's) \<Rightarrow> 'a list \<Rightarrow> 's \<Rightarrow> pyerr + 's" where
  "fold_r f [] s = Inr s"
| "fold_r f (x # xs) s = (case f s x of Inl e \<Rightarrow> Inl e | Inr s' \<Rightarrow> fold_r f xs s')"

text \<open>Truth value of a decoded value (\<^verbatim>\<open>not x\<close>, \<^verbatim>\<open>x and ...\<close>, \<^verbatim>\<open>x or ...\<close>).\<close>

fun truthy :: "json \<Rightarrow> bool" where
  "truthy JNull = False"
| "truthy (JBool b) = b"
| "truthy (JInt i) = (i \<noteq> 0)"
| "truthy (JFloat w) = (take_bit 63 w \<noteq> 0)"
| "truthy (JStr s) = (s \<noteq> [])"
| "truthy (JList xs) = (xs \<noteq> [])"
| "truthy (JDict d) = (d \<noteq> [])"

text \<open>Truth value of an \<^verbatim>\<open>Optional[str]\<close>: \<^verbatim>\<open>None\<close> and the empty string are false.\<close>

definition opt_truthy :: "ustr option \<Rightarrow> bool" where
  "opt_truthy t = (t \<noteq> None \<and> t \<noteq> Some [])"

fun is_list :: "json \<Rightarrow> bool" where
  "is_list (JList xs) = True"
| "is_list x = False"

fun is_dict :: "json \<Rightarrow> bool" where
  "is_dict (JDict d) = True"
| "is_dict x = False"

text \<open>
  The operations of Python that raise on a value of the wrong shape:
  \<^verbatim>\<open>x.get(k)\<close>, \<^verbatim>\<open>x[k]\<close> for a string \<open>k\<close>, \<^verbatim>\<open>x[0]\<close>, and iteration over \<open>x\<close>.
\<close>

fun py_get :: "json \<Rightarrow> ustr \<Rightarrow> pyerr + json" where
  "py_get (JDict d) k = Inr (case map_of d k of Some v \<Rightarrow> v | None \<Rightarrow> JNull)"
| "py_get x k = Inl AttributeError"

fun py_item :: "json \<Rightarrow> ustr \<Rightarrow> pyerr + json" where
  "py_item (JDict d) k = (case map_of d k of Some v \<Rightarrow> Inr v | None \<Rightarrow> Inl KeyError)"
| "py_item x k = Inl TypeError"

fun py_first :: "json \<Rightarrow> pyerr + json" where
  "py_first (JList (x # xs)) = Inr x"
| "py_first (JList []) = Inl IndexError"
| "py_first (JStr (c # cs)) = Inr (JStr [c])"
| "py_first (JStr []) = Inl IndexError"
| "py_first (JDict d) = Inl KeyError"
| "py_first x = Inl TypeError"

fun py_iter :: "json \<Rightarrow> pyerr + json list" where
  "py_iter (JList xs) = Inr xs"
| "py_iter (JStr s) = Inr (map (\<lambda>c. JStr [c]) s)"
| "py_iter (JDict d) = Inr (map (\<lambda>kv. JStr (fst kv)) d)"
| "py_iter x = Inl TypeError"

text \<open>Decimal rendering of an int (\<^verbatim>\<open>str(n)\<close>, \<^verbatim>\<open>f"{n}"\<close>).\<close>

fun show_nat :: "nat \<Rightarrow> ustr" where
  "show_nat n = (if n < 10 then [48 + n] else show_nat (n div 10) @ [48 + n mod 10])"

definition show_int :: "int \<Rightarrow> ustr" where
  "show_int i = (if i < 0 then 45 # show_nat (nat (- i)) else show_nat (nat i))"

text \<open>\<^verbatim>\<open>str(x)\<close>.\<close>

fun py_str :: "pyenv \<Rightarrow> json \<Rightarrow> ustr" where
  "py_str E (JStr s) = s"
| "py_str E JNull = u ''None''"
| "py_str E (JBool b) = (if b then u ''True'' else u ''False'')"
| "py_str E (JInt i) = show_int i"
| "py_str E x = repr_other E x"

text \<open>
  Decimal digits: the ASCII digits, no other ASCII code point, and beyond ASCII what the
  Unicode table says. \<^verbatim>\<open>int(s)\<close> is modelled on a non-empty string of decimal digits,
  which is all the program passes to it; on any other text the model reports
  \<^verbatim>\<open>ValueError\<close>.
\<close>

definition decimal :: "pyenv \<Rightarrow> nat \<Rightarrow> nat option" where
  "decimal E c = (if 48 \<le> c \<and> c \<le> 57 then Some (c - 48) else if c < 128 then None else nd_digit E c)"

definition isdigit :: "pyenv \<Rightarrow> nat \<Rightarrow> bool" where
  "isdigit E c = (decimal E c \<noteq> None)"

fun digits_val :: "pyenv \<Rightarrow> nat \<Rightarrow> ustr \<Rightarrow> pyerr + nat" where
  "digits_val E acc [] = Inr acc"
| "digits_val E acc (c # cs) =
     (case decimal E c of None \<Rightarrow> Inl ValueError | Some d \<Rightarrow> digits_val E (10 * acc + d) cs)"

definition py_int :: "pyenv \<Rightarrow> ustr \<Rightarrow> pyerr + nat" where
  "py_int E s = (if s = [] then Inl ValueError else digits_val E 0 s)"

section \<open>Duration text (iso8601_duration_to_text, lines 82-93)\<close>

text \<open>
  The pattern \<^verbatim>\<open>\d+\<close> followed by the code point \<open>c\<close>, matched at the start of \<open>s\<close>; the
  result is the text of the digits. \<open>c\<close> is \<^verbatim>\<open>H\<close> or \<^verbatim>\<open>M\<close>, not a digit, so the greedy
  match of the digits is the only one that can succeed.
\<close>

definition match_digits_then :: "pyenv \<Rightarrow> nat \<Rightarrow> ustr \<Rightarrow> ustr option" where
  "match_digits_then E c s =
     (let ds = takeWhile (isdigit E) s; r = dropWhile (isdigit E) s
      in if ds \<noteq> [] \<and> r \<noteq> [] \<and> hd r = c then Some ds else None)"

text \<open>
  \<^verbatim>\<open>re.search(r"PT(\d+)H", s)\<close> and \<^verbatim>\<open>re.search(r"(\d+)M", s)\<close>: group 1 of the leftmost
  match, \<open>None\<close> when there is no match.
\<close>

fun search_pt_h :: "pyenv \<Rightarrow> ustr \<Rightarrow> ustr option" where
  "search_pt_h E [] = None"
| "search_pt_h E (c # cs) =
     (if prefix (u ''PT'') (c # cs)
      then (case match_digits_then E 72 (drop 2 (c # cs)) of
              Some g \<Rightarrow> Some g
            | None \<Rightarrow> search_pt_h E cs)
      else search_pt_h E cs)"

fun search_m :: "pyenv \<Rightarrow> ustr \<Rightarrow> ustr option" where
  "search_m E [] = None"
| "search_m E (c # cs) =
     (case match_digits_then E 77 (c # cs) of
        Some g \<Rightarrow> Some g
      | None \<Rightarrow> search_m E cs)"

definition hours_txt :: ustr where
  "hours_txt = [23567, 26178]"

definition minutes_txt :: ustr where
  "minutes_txt = [20998, 37912]"

definition iso8601_duration_to_text :: "pyenv \<Rightarrow> ustr \<Rightarrow> pyerr + ustr option" where
  "iso8601_duration_to_text E s =
     (if s = [] then Inr None
      else if \<not> prefix (u ''PT'') s then Inr (Some s)
      else
        bind (case search_pt_h E s of Some g \<Rightarrow> py_int E g | None \<Rightarrow> Inr 0) (\<lambda>hours.
        bind (case search_m E s of Some g \<Rightarrow> py_int E g | None \<Rightarrow> Inr 0) (\<lambda>minutes.
          if hours = 0 \<and> minutes = 0 then Inr None
          else if hours \<noteq> 0 \<and> minutes \<noteq> 0
            then Inr (Some (show_nat hours @ u '' '' @ hours_txt @ u '' '' @ show_nat minutes @ u '' '' @ minutes_txt))
          else if hours \<noteq> 0 then Inr (Some (show_nat hours @ u '' '' @ hours_txt))
          else Inr (Some (show_nat minutes @ u '' '' @ minutes_txt)))))"

section \<open>Field helpers (lines 95-126)\<close>

definition ensure_str :: "pyenv \<Rightarrow> json \<Rightarrow> ustr option" where
  "ensure_str E x = (if x \<noteq> JNull then Some (strip (py_str E x)) else None)"

definition extract_image_url_from_ld :: "pyenv \<Rightarrow> json \<Rightarrow> pyerr + ustr option" where
  "extract_image_url_from_ld E obj =
     (if \<not> truthy obj then Inr None
      else case obj of
          JStr s \<Rightarrow> Inr (Some s)
        | JList xs \<Rightarrow>
            bind (py_first obj) (\<lambda>x0.
              case x0 of
                JStr s \<Rightarrow> Inr (Some s)
              | JDict d0 \<Rightarrow> bind (py_get x0 (u ''url'')) (\<lambda>v. Inr (ensure_str E v))
              | _ \<Rightarrow> Inr None)
        | JDict d \<Rightarrow> bind (py_get obj (u ''url'')) (\<lambda>v. Inr (ensure_str E v))
        | _ \<Rightarrow> Inr None)"

text \<open>
  \<^verbatim>\<open>t = x.get("text") or x.get("name")\<close>, then \<^verbatim>\<open>steps.append(str(t).strip())\<close> when \<open>t\<close>
  and the stripped text are both non-empty (lines 115-117 and 123-125).
\<close>

definition append_text_or_name :: "pyenv \<Rightarrow> json \<Rightarrow> ustr list \<Rightarrow> pyerr + ustr list" where
  "append_text_or_name E x steps =
     bind (py_get x (u ''text'')) (\<lambda>a.
     bind (if truthy a then Inr a else py_get x (u ''name'')) (\<lambda>t.
       Inr (if truthy t \<and> strip (py_str E t) \<noteq> [] then steps @ [strip (py_str E t)] else steps)))"

definition pick_step :: "pyenv \<Rightarrow> ustr list \<Rightarrow> json \<Rightarrow> pyerr + ustr list" where
  "pick_step E steps it =
     (case it of
        JStr s \<Rightarrow> Inr (if strip s \<noteq> [] then steps @ [strip s] else steps)
      | JDict d \<Rightarrow> append_text_or_name E it steps
      | _ \<Rightarrow> Inr steps)"

definition pick_from_list :: "pyenv \<Rightarrow> json list \<Rightarrow> ustr list \<Rightarrow> pyerr + ustr list" where
  "pick_from_list E items steps = fold_r (pick_step E) items steps"

definition extract_steps_from_ld :: "pyenv \<Rightarrow> json \<Rightarrow> pyerr + ustr list" where
  "extract_steps_from_ld E obj =
     bind (case obj of
             JList items \<Rightarrow> pick_from_list E items []
           | JDict d \<Rightarrow>
               bind (py_get obj (u ''@type'')) (\<lambda>ty.
               bind (if ty = JStr (u ''HowToSection'')
                     then bind (py_get obj (u ''itemListElement'')) (\<lambda>il. Inr (is_list il))
                     else Inr False) (\<lambda>section.
                 if section
                 then bind (py_item obj (u ''itemListElement'')) (\<lambda>il.
                      bind (py_iter il) (\<lambda>items. pick_from_list E items []))
                 else append_text_or_name E obj []))
           | _ \<Rightarrow> Inr [])
          (\<lambda>steps. Inr (filter (\<lambda>s. s \<noteq> []) (map strip steps)))"

section \<open>The structured data extractor (parse_ld_json, lines 128-190)\<close>

record ld =
  ld_title :: "ustr option"
  ld_ingredients :: "ustr list"
  ld_time_text :: "ustr option"
  ld_yield_info :: "ustr option"
  ld_steps :: "ustr list"
  ld_image_url :: "ustr option"

definition ld_init :: ld where
  "ld_init = \<lparr>ld_title = None, ld_ingredients = [], ld_time_text = None,
              ld_yield_info = None, ld_steps = [], ld_image_url = None\<rparr>"

text \<open>Lines 156-157.\<close>

definition is_recipe :: "json \<Rightarrow> bool" where
  "is_recipe types =
     (types = JStr (u ''Recipe'') \<or>
      (case types of JList ts \<Rightarrow> JStr (u ''Recipe'') \<in> set ts | _ \<Rightarrow> False))"

text \<open>Lines 144-153: the nodes of one candidate.\<close>

definition nodes_of :: "json \<Rightarrow> pyerr + json list" where
  "nodes_of obj =
     (case obj of
        JDict d \<Rightarrow>
          bind (if u ''@graph'' \<in> fst ` set d
                then bind (py_item obj (u ''@graph'')) (\<lambda>g. Inr (is_list g))
                else Inr False) (\<lambda>graph.
            if graph
            then bind (py_item obj (u ''@graph'')) (\<lambda>g.
                 bind (py_iter g) (\<lambda>gs. Inr (filter is_dict gs)))
            else Inr [obj])
      | JList xs \<Rightarrow> Inr (filter is_dict xs)
      | _ \<Rightarrow> Inr [])"

text \<open>Lines 161-162.\<close>

definition upd_title :: "pyenv \<Rightarrow> json \<Rightarrow> ld \<Rightarrow> pyerr + ld" where
  "upd_title E node s =
     (if \<not> opt_truthy (ld_title s)
      then bind (py_get node (u ''name'')) (\<lambda>v. Inr (s\<lparr>ld_title := ensure_str E v\<rparr>))
      else Inr s)"

text \<open>Lines 164-167.\<close>

definition upd_ingredients :: "pyenv \<Rightarrow> json \<Rightarrow> ld \<Rightarrow> pyerr + ld" where
  "upd_ingredients E node s =
     (if ld_ingredients s = []
      then bind (py_get node (u ''recipeIngredient'')) (\<lambda>ing.
             case ing of
               JList xs \<Rightarrow>
                 Inr (s\<lparr>ld_ingredients :=
                        map (\<lambda>x. strip (py_str E x)) (filter (\<lambda>x. strip (py_str E x) \<noteq> []) xs)\<rparr>)
             | _ \<Rightarrow> Inr s)
      else Inr s)"

text \<open>Lines 169-172.\<close>

definition upd_time :: "pyenv \<Rightarrow> json \<Rightarrow> ld \<Rightarrow> pyerr + ld" where
  "upd_time E node s =
     (if \<not> opt_truthy (ld_time_text s)
      then bind (py_get node (u ''totalTime'')) (\<lambda>a.
           bind (if opt_truthy (ensure_str E a) then Inr (ensure_str E a)
                 else bind (py_get node (u ''cookTime'')) (\<lambda>b. Inr (ensure_str E b))) (\<lambda>t.
             case t of
               None \<Rightarrow> Inr s
             | Some txt \<Rightarrow>
                 if txt = [] then Inr s
                 else bind (iso8601_duration_to_text E txt) (\<lambda>r.
                        Inr (s\<lparr>ld_time_text := (if opt_truthy r then r else Some txt)\<rparr>))))
      else Inr s)"

text \<open>Lines 174-179.\<close>

definition upd_yield :: "pyenv \<Rightarrow> json \<Rightarrow> ld \<Rightarrow> pyerr + ld" where
  "upd_yield E node s =
     (if \<not> opt_truthy (ld_yield_info s)
      then bind (py_get node (u ''recipeYield'')) (\<lambda>y.
             if is_list y \<and> truthy y
             then bind (py_first y) (\<lambda>y0. Inr (s\<lparr>ld_yield_info := ensure_str E y0\<rparr>))
             else Inr (s\<lparr>ld_yield_info := ensure_str E y\<rparr>))
      else Inr s)"

text \<open>Lines 181-185.\<close>

definition upd_steps :: "pyenv \<Rightarrow> json \<Rightarrow> ld \<Rightarrow> pyerr + ld" where
  "upd_steps E node s =
     (if ld_steps s = []
      then bind (py_get node (u ''recipeInstructions'')) (\<lambda>inst.
           bind (extract_steps_from_ld E inst) (\<lambda>st.
             Inr (if st \<noteq> [] then s\<lparr>ld_steps := st\<rparr> else s)))
      else Inr s)"

text \<open>Lines 187-188.\<close>

definition upd_image :: "pyenv \<Rightarrow> json \<Rightarrow> ld \<Rightarrow> pyerr + ld" where
  "upd_image E node s =
     (if \<not> opt_truthy (ld_image_url s)
      then bind (py_get node (u ''image'')) (\<lambda>img.
           bind (extract_image_url_from_ld E img) (\<lambda>r. Inr (s\<lparr>ld_image_url := r\<rparr>)))
      else Inr s)"

text \<open>Lines 155-188: the body of the loop over the nodes.\<close>

definition node_step :: "pyenv \<Rightarrow> ld \<Rightarrow> json \<Rightarrow> pyerr + ld" where
  "node_step E s node =
     bind (py_get node (u ''@type'')) (\<lambda>types.
       if \<not> is_recipe types then Inr s
       else bind (upd_title E node s) (\<lambda>s1.
            bind (upd_ingredients E node s1) (\<lambda>s2.
            bind (upd_time E node s2) (\<lambda>s3.
            bind (upd_yield E node s3) (\<lambda>s4.
            bind (upd_steps E node s4) (\<lambda>s5.
            upd_image E node s5))))))"

text \<open>Lines 143-188: the body of the loop over the candidates of one document.\<close>

definition cand_step :: "pyenv \<Rightarrow> ld \<Rightarrow> json \<Rightarrow> pyerr + ld" where
  "cand_step E s obj = bind (nodes_of obj) (\<lambda>nodes. fold_r (node_step E) nodes s)"

text \<open>Line 142.\<close>

definition candidates :: "json \<Rightarrow> json list" where
  "candidates data = (case data of JList xs \<Rightarrow> xs | _ \<Rightarrow> [data])"

text \<open>Lines 136-188: the body of the loop over the blobs.\<close>

definition blob_step :: "pyenv \<Rightarrow> ld \<Rightarrow> ustr \<Rightarrow> pyerr + ld" where
  "blob_step E s raw =
     (case json_loads E raw of
        None \<Rightarrow> Inr s
      | Some data \<Rightarrow> fold_r (cand_step E) (candidates data) s)"

definition parse_ld_json :: "pyenv \<Rightarrow> ustr list \<Rightarrow> pyerr + ld" where
  "parse_ld_json E ld_texts = fold_r (blob_step E) ld_texts ld_init"

section \<open>Remote identifier (upsert_firestore, lines 76-80)\<close>

text \<open>
  \<^verbatim>\<open>doc_id = doc["link"].replace("https://", "").replace("http://", "").replace("/", "_")\<close>
\<close>

definition doc_id :: "ustr \<Rightarrow> ustr" where
  "doc_id link = replace (u ''/'') (u ''_'') (replace (u ''http://'') [] (replace (u ''https://'') [] link))"

text \<open>
  A call into the page driver or the remote store either raises or returns. What such
  calls do is an input of the model; waiting and logging are not modelled.
\<close>

datatype 'a outcome = Raises | Returns 'a

record doc =
  title :: ustr
  ingredients :: "ustr list"
  steps :: "ustr list"
  time :: "ustr option"
  yield :: "ustr option"
  link :: ustr
  imageUrl :: "ustr option"
  source :: ustr

type_synonym store = "ustr \<rightharpoonup> doc"

text \<open>
  The assertion of line 77 holds for every \<open>doc\<close>, which has a link; \<open>ok\<close> says whether
  the store's \<^verbatim>\<open>set\<close> call of line 79 succeeds.
\<close>

definition upsert_firestore :: "bool \<Rightarrow> store \<Rightarrow> doc \<Rightarrow> (ustr \<times> store) outcome" where
  "upsert_firestore ok recipes d =
     (if ok then Returns (doc_id (link d), recipes(doc_id (link d) \<mapsto> d)) else Raises)"

section \<open>Crawl controller (scrape_keyword, lines 193-283)\<close>

definition LIMIT_PER_ING :: nat where
  "LIMIT_PER_ING = 20"

text \<open>\<^verbatim>\<open>re.fullmatch(r"/recipes/\d+", href)\<close>.\<close>

definition is_recipe_path :: "pyenv \<Rightarrow> ustr \<Rightarrow> bool" where
  "is_recipe_path E href =
     (prefix (u ''/recipes/'') href \<and> drop 9 href \<noteq> [] \<and> list_all (isdigit E) (drop 9 href))"

text \<open>
  \<^verbatim>\<open>urljoin("https://icook.tw", href)\<close> for a reference that is an absolute path, which
  is all that the test of line 203 lets through: the base's scheme and host, then the
  path.
\<close>

definition urljoin_icook :: "ustr \<Rightarrow> ustr" where
  "urljoin_icook href = u ''https://icook.tw'' @ href"

text \<open>Lines 200-204; an anchor is given by the value of its \<^verbatim>\<open>href\<close> attribute.\<close>

fun collect_links :: "pyenv \<Rightarrow> ustr option list \<Rightarrow> ustr list \<Rightarrow> ustr list" where
  "collect_links E [] links = links"
| "collect_links E (a # as) links =
     collect_links E as
       (case a of
          Some href \<Rightarrow>
            if href \<noteq> [] \<and> is_recipe_path E href then links @ [urljoin_icook href] else links
        | None \<Rightarrow> links)"

text \<open>
  \<^verbatim>\<open>list(dict.fromkeys(links))\<close>: the keys are inserted one by one, and a key that is
  already there keeps its place.
\<close>

definition dict_fromkeys :: "'a list \<Rightarrow> 'a list" where
  "dict_fromkeys xs = foldl (\<lambda>keys x. if x \<in> set keys then keys else keys @ [x]) [] xs"

text \<open>Lines 199-205.\<close>

definition discover_links :: "pyenv \<Rightarrow> ustr option list \<Rightarrow> ustr list" where
  "discover_links E anchors = take LIMIT_PER_ING (dict_fromkeys (collect_links E anchors []))"

text \<open>
  What the driver shows of one recipe page: the script elements (\<open>Raises\<close> when
  lines 212-214 raise) with what \<^verbatim>\<open>inner_text\<close> does on each, the first heading's
  text, the content of the preview image's meta element, the elements that the step and
  ingredient selectors find, and whether the store's \<^verbatim>\<open>set\<close> succeeds for this page.
  An element answers \<^verbatim>\<open>inner_text\<close> the same way each time it is asked.
\<close>

record page_obs =
  scripts :: "ustr option outcome list outcome"
  h1 :: "ustr option outcome"
  og_image :: "ustr option outcome"
  step_items :: "ustr option outcome list outcome"
  ingredient_items :: "ustr option outcome list outcome"
  set_ok :: bool

text \<open>Lines 219-225.\<close>

fun script_texts :: "ustr option outcome list \<Rightarrow> ustr list" where
  "script_texts [] = []"
| "script_texts (Returns (Some txt) # ss) =
     (if txt \<noteq> [] \<and> sublist (u ''Recipe'') txt then txt # script_texts ss else script_texts ss)"
| "script_texts (s # ss) = script_texts ss"

definition placeholder_title :: ustr where
  "placeholder_title = [40, 26410, 25214, 21040, 27161, 38988, 41]"

text \<open>Lines 230-234.\<close>

definition title_fallback :: "ustr option outcome \<Rightarrow> ustr option \<Rightarrow> ustr option" where
  "title_fallback h t =
     (if \<not> opt_truthy t
      then (case h of Returns (Some s) \<Rightarrow> Some (strip s) | _ \<Rightarrow> Some placeholder_title)
      else t)"

text \<open>Lines 235-241.\<close>

definition image_fallback :: "ustr option outcome \<Rightarrow> ustr option \<Rightarrow> ustr option" where
  "image_fallback og image_url =
     (if \<not> opt_truthy image_url
      then (case og of
              Returns (Some v) \<Rightarrow> if v \<noteq> [] \<and> prefix (u ''http'') v then Some v else image_url
            | _ \<Rightarrow> image_url)
      else image_url)"

text \<open>
  The list \<open>tmp\<close> of lines 245 and 253, \<open>None\<close> when an element's \<^verbatim>\<open>inner_text\<close> raises.
\<close>

fun item_texts :: "ustr option outcome list \<Rightarrow> ustr list option" where
  "item_texts [] = Some []"
| "item_texts (Raises # cs) = None"
| "item_texts (Returns t # cs) =
     (case item_texts cs of
        None \<Rightarrow> None
      | Some ts \<Rightarrow>
          (let s = strip (case t of None \<Rightarrow> [] | Some x \<Rightarrow> x)
           in Some (if s \<noteq> [] then s # ts else ts)))"

text \<open>Lines 242-249 and 250-257.\<close>

definition list_fallback :: "ustr option outcome list outcome \<Rightarrow> ustr list \<Rightarrow> ustr list" where
  "list_fallback items cur =
     (if cur = []
      then (case items of
              Raises \<Rightarrow> cur
            | Returns cs \<Rightarrow>
                (case item_texts cs of
                   None \<Rightarrow> cur
                 | Some tmp \<Rightarrow> if tmp \<noteq> [] then tmp else cur))
      else cur)"

text \<open>Lines 259-268.\<close>

definition build_doc :: "page_obs \<Rightarrow> ustr \<Rightarrow> ld \<Rightarrow> doc" where
  "build_doc p url r =
     \<lparr>title = (case title_fallback (h1 p) (ld_title r) of Some t \<Rightarrow> t | None \<Rightarrow> []),
      ingredients = list_fallback (ingredient_items p) (ld_ingredients r),
      steps = list_fallback (step_items p) (ld_steps r),
      time = ld_time_text r,
      yield = ld_yield_info r,
      link = url,
      imageUrl = image_fallback (og_image p) (ld_image_url r),
      source = u ''icook''\<rparr>"

text \<open>
  The state of the crawl of one keyword: the list \<open>saved\<close> and the process-wide handle
  \<open>db\<close> (\<open>None\<close> when no store was configured, else the recipes collection).
\<close>

record crawl =
  saved :: "doc list"
  db :: "store option"

text \<open>Lines 270-279.\<close>

definition persist :: "bool \<Rightarrow> doc \<Rightarrow> crawl \<Rightarrow> crawl" where
  "persist ok d st =
     (if ingredients d \<noteq> []
      then \<lparr>saved = saved st @ [d],
            db = (case db st of
                    None \<Rightarrow> None
                  | Some recipes \<Rightarrow>
                      (case upsert_firestore ok recipes d of
                         Returns (i, recipes') \<Rightarrow> Some recipes'
                       | Raises \<Rightarrow> Some recipes))\<rparr>
      else st)"

text \<open>Lines 209-282: the body of the loop over the links.\<close>

definition visit_page :: "pyenv \<Rightarrow> (ustr \<Rightarrow> page_obs) \<Rightarrow> crawl \<Rightarrow> ustr \<Rightarrow> pyerr + crawl" where
  "visit_page E fetch st url =
     (case scripts (fetch url) of
        Raises \<Rightarrow> Inr st
      | Returns ss \<Rightarrow>
          bind (parse_ld_json E (script_texts ss)) (\<lambda>r.
            Inr (persist (set_ok (fetch url)) (build_doc (fetch url) url r) st)))"

text \<open>
  What the driver shows for one keyword: the \<^verbatim>\<open>href\<close> values of the anchors of the
  search page (\<open>Raises\<close> when lines 196-202 raise, which nothing catches), and the
  recipe pages by address.
\<close>

record kw_obs =
  search :: "ustr option list outcome"
  pages :: "ustr \<Rightarrow> page_obs"

definition scrape_keyword :: "pyenv \<Rightarrow> kw_obs \<Rightarrow> store option \<Rightarrow> pyerr + crawl" where
  "scrape_keyword E k dbh =
     (case search k of
        Raises \<Rightarrow> Inl DriverError
      | Returns anchors \<Rightarrow>
          fold_r (visit_page E (pages k)) (discover_links E anchors) \<lparr>saved = [], db = dbh\<rparr>)"

section \<open>Persistence (main, lines 286-360)\<close>

text \<open>
  A file is given by what \<^verbatim>\<open>json.load\<close> makes of it. A write either succeeds, and the
  file then holds the value written, or raises and leaves the file in some state.
\<close>

datatype fcontent = Unparseable | Parsed json

datatype wr = Written | WriteFailed "fcontent option"

definition write_file :: "wr \<Rightarrow> json \<Rightarrow> fcontent option \<Rightarrow> fcontent option" where
  "write_file w v old = (case w of Written \<Rightarrow> Some (Parsed v) | WriteFailed left \<Rightarrow> left)"

definition opt_json :: "ustr option \<Rightarrow> json" where
  "opt_json t = (case t of None \<Rightarrow> JNull | Some s \<Rightarrow> JStr s)"

definition doc_json :: "doc \<Rightarrow> json" where
  "doc_json d =
     JDict [(u ''title'', JStr (title d)),
            (u ''ingredients'', JList (map JStr (ingredients d))),
            (u ''steps'', JList (map JStr (steps d))),
            (u ''time'', opt_json (time d)),
            (u ''yield'', opt_json (yield d)),
            (u ''link'', JStr (link d)),
            (u ''imageUrl'', opt_json (imageUrl d)),
            (u ''source'', JStr (source d))]"

text \<open>\<^verbatim>\<open>history.extend(all_saved)\<close>: only a list has the method.\<close>

fun py_extend :: "json \<Rightarrow> json list \<Rightarrow> pyerr + json" where
  "py_extend (JList xs) ys = Inr (JList (xs @ ys))"
| "py_extend x ys = Inl AttributeError"

record world =
  sample_file :: "fcontent option"
  history_file :: "fcontent option"
  remote :: "store option"

text \<open>
  Lines 307-313: the keywords in the order the shuffle gave, each with what the driver
  shows for it.
\<close>

fun crawl_all :: "pyenv \<Rightarrow> kw_obs list \<Rightarrow> doc list \<Rightarrow> store option \<Rightarrow> pyerr + doc list \<times> store option" where
  "crawl_all E [] all_saved dbh = Inr (all_saved, dbh)"
| "crawl_all E (k # ks) all_saved dbh =
     (case scrape_keyword E k dbh of
        Inl e \<Rightarrow> Inl e
      | Inr st \<Rightarrow> crawl_all E ks (all_saved @ saved st) (db st))"

text \<open>Lines 326-332.\<close>

definition load_history :: "fcontent option \<Rightarrow> json" where
  "load_history f = (case f of Some (Parsed v) \<Rightarrow> v | _ \<Rightarrow> JList [])"

text \<open>
  The run: the crawl, the snapshot (lines 318-323) and the history (lines 325-338).
  \<open>w_sample\<close> and \<open>w_history\<close> say what the two writes do. When the run ends with an
  exception the model gives the exception only. The closing statistics (lines 342-358)
  add to another collection and are left out.
\<close>

definition main :: "pyenv \<Rightarrow> kw_obs list \<Rightarrow> wr \<Rightarrow> wr \<Rightarrow> world \<Rightarrow> pyerr + world" where
  "main E kws w_sample w_history W =
     bind (crawl_all E kws [] (remote W)) (\<lambda>(all_saved, dbh).
     bind (py_extend (load_history (history_file W)) (map doc_json all_saved)) (\<lambda>history.
       Inr \<lparr>sample_file = write_file w_sample (JList (map doc_json all_saved)) (sample_file W),
            history_file = write_file w_history history (history_file W),
            remote = dbh\<rparr>))"

section \<open>Notions used in the statements\<close>

text \<open>
  First-wins for one field: \<open>cur\<close> is the field before a node is read, \<open>offered\<close> what the
  node offers for it, \<open>new\<close> the field afterwards.
\<close>

definition first_wins :: "('v \<Rightarrow> bool) \<Rightarrow> 'v \<Rightarrow> 'v \<Rightarrow> 'v \<Rightarrow> bool" where
  "first_wins ne cur offered new =
     (if ne cur then new = cur else if ne offered then new = offered else \<not> ne new)"

definition nonempty :: "'a list \<Rightarrow> bool" where
  "nonempty xs = (xs \<noteq> [])"

text \<open>What the extractor yields from one node alone.\<close>

definition alone :: "pyenv \<Rightarrow> json \<Rightarrow> ld" where
  "alone E node = (case node_step E ld_init node of Inr r \<Rightarrow> r | Inl e \<Rightarrow> ld_init)"

definition node_is_recipe :: "json \<Rightarrow> bool" where
  "node_is_recipe node = (case py_get node (u ''@type'') of Inr t \<Rightarrow> is_recipe t | Inl e \<Rightarrow> False)"

text \<open>
  The nodes in the order the extractor reads them: blob by blob, candidate by
  candidate, node by node; the Recipe nodes among them.
\<close>

definition nodes_list :: "json \<Rightarrow> json list" where
  "nodes_list obj = (case nodes_of obj of Inr ns \<Rightarrow> ns | Inl e \<Rightarrow> [])"

definition blob_nodes :: "pyenv \<Rightarrow> ustr \<Rightarrow> json list" where
  "blob_nodes E raw =
     (case json_loads E raw of
        None \<Rightarrow> []
      | Some data \<Rightarrow> concat (map nodes_list (candidates data)))"

definition scan_nodes :: "pyenv \<Rightarrow> ustr list \<Rightarrow> json list" where
  "scan_nodes E ld_texts = concat (map (blob_nodes E) ld_texts)"

definition recipe_nodes :: "pyenv \<Rightarrow> ustr list \<Rightarrow> json list" where
  "recipe_nodes E ld_texts = filter node_is_recipe (scan_nodes E ld_texts)"


text \<open>
  The anchors' addresses that match the recipe-detail pattern, and the subsequence of
  the first occurrences of a list: the members that do not occur at an earlier place.
\<close>

definition recipe_hrefs :: "pyenv \<Rightarrow> ustr option list \<Rightarrow> ustr list" where
  "recipe_hrefs E anchors = filter (is_recipe_path E) [h. Some h \<leftarrow> anchors]"

definition first_occurrences :: "'a list \<Rightarrow> 'a list" where
  "first_occurrences xs =
     map (\<lambda>i. xs ! i) (filter (\<lambda>i. xs ! i \<notin> set (take i xs)) [0..<length xs])"

section \<open>Example inputs\<close>

text \<open>
  Two documents of a page and an environment in which the blob \<^verbatim>\<open>soup\<close> decodes to the
  first, the blob \<^verbatim>\<open>stew\<close> to a list holding a number and the second, three more
  blobs to the documents below, and every other blob fails to decode.
\<close>

definition soup :: json where
  "soup = JDict [(u ''@type'', JStr (u ''Recipe'')),
                 (u ''name'', JStr (u '' Soup '')),
                 (u ''totalTime'', JStr (u ''PT1H30M'')),
                 (u ''recipeIngredient'', JList [JStr (u '' '')]),
                 (u ''image'', JDict [(u ''url'', JStr (u '' http://x/s.jpg ''))])]"

definition stew :: json where
  "stew = JDict [(u ''@type'', JList [JStr (u ''Thing''), JStr (u ''Recipe'')]),
                 (u ''name'', JStr (u ''Stew'')),
                 (u ''cookTime'', JStr (u ''PT45M'')),
                 (u ''recipeYield'', JList [JInt 4]),
                 (u ''recipeIngredient'', JList [JStr (u '' salt ''), JStr (u ''water'')]),
                 (u ''recipeInstructions'',
                    JList [JStr (u ''Boil.''), JDict [(u ''text'', JStr (u '' Serve. ''))], JInt 3]),
                 (u ''image'', JList [JStr (u ''http://x/t.jpg'')])]"

text \<open>
  Three more documents: one whose duration is zero, one whose image is a string with
  blanks around it, one whose image is a blank string.
\<close>

definition idle :: json where
  "idle = JDict [(u ''@type'', JStr (u ''Recipe'')), (u ''totalTime'', JStr (u ''PT0H0M''))]"

definition bare :: json where
  "bare = JDict [(u ''@type'', JStr (u ''Recipe'')), (u ''image'', JStr (u '' http://x/p.jpg ''))]"

definition blank :: json where
  "blank = JDict [(u ''@type'', JStr (u ''Recipe'')), (u ''image'', JList [JStr (u '' '')])]"

definition demo_env :: pyenv where
  "demo_env =
     \<lparr>json_loads = (\<lambda>raw. if raw = u ''soup'' then Some soup
                           else if raw = u ''stew'' then Some (JList [JInt 1, stew])
                           else if raw = u ''idle'' then Some idle
                           else if raw = u ''bare'' then Some bare
                           else if raw = u ''blank'' then Some blank
                           else None),
      nd_digit = (\<lambda>c. None),
      repr_other = (\<lambda>x. u ''?'')\<rparr>"



text \<open>
  The remote collection after some writes, compared with the collection before: every
  identifier holds what it held, or a record with ingredients. The handle itself does
  not come or go.
\<close>

definition store_grows :: "store option \<Rightarrow> store option \<Rightarrow> bool" where
  "store_grows before after =
     (case (before, after) of
        (None, None) \<Rightarrow> True
      | (Some m0, Some m) \<Rightarrow> (\<forall>i. m i = m0 i \<or> (\<exists>d. m i = Some d \<and> ingredients d \<noteq> []))
      | _ \<Rightarrow> False)"

text \<open>
  The records of a stored history: those of the list in the file, none when the file is
  absent or does not parse.
\<close>

definition history_records :: "fcontent option \<Rightarrow> json list" where
  "history_records f = (case f of Some (Parsed (JList xs)) \<Rightarrow> xs | _ \<Rightarrow> [])"

definition history_usable :: "fcontent option \<Rightarrow> bool" where
  "history_usable f = (case f of Some (Parsed v) \<Rightarrow> is_list v | _ \<Rightarrow> True)"

text \<open>
  A keyword whose search page shows two recipe links. Neither page has a metadata blob
  that mentions a Recipe; the first lists an ingredient in its markup, the second none.
\<close>

definition demo_page :: "ustr \<Rightarrow> page_obs" where
  "demo_page url =
     \<lparr>scripts = Returns [Returns (Some (u ''stew'')), Raises],
      h1 = Returns (Some (u '' Egg rice '')),
      og_image = Returns (Some (u ''http://x/e.jpg'')),
      step_items = Raises,
      ingredient_items =
        (if url = u ''https://icook.tw/recipes/1''
         then Returns [Returns (Some (u '' egg '')), Returns None]
         else Returns []),
      set_ok = True\<rparr>"

definition demo_kw :: kw_obs where
  "demo_kw = \<lparr>search = Returns [Some (u ''/recipes/1''), Some (u ''/recipes/2'')],
              pages = demo_page\<rparr>"

definition egg_doc :: doc where
  "egg_doc = \<lparr>title = u ''Egg rice'', ingredients = [u ''egg''], steps = [],
               time = None, yield = None, link = u ''https://icook.tw/recipes/1'',
               imageUrl = Some (u ''http://x/e.jpg''), source = u ''icook''\<rparr>"

section \<open>Auxiliary facts\<close>

declare show_nat.simps [simp del]

declare replace.simps [simp del]

lemma fold_r_total:
  "(\<And>s x. x \<in> set xs \<Longrightarrow> \<exists>r. f s x = Inr r) \<Longrightarrow> \<exists>r. fold_r f xs s = Inr r"
proof (induction xs arbitrary: s)
  case Nil show ?case by simp
next
  case (Cons x xs)
  from Cons.prems[of x s] obtain s1 where s1: "f s x = Inr s1" by auto
  from Cons.IH[of s1] Cons.prems obtain r where "fold_r f xs s1 = Inr r" by auto
  with s1 show ?case by simp
qed

lemma fold_r_append:
  "fold_r f (xs @ ys) s = bind (fold_r f xs s) (fold_r f ys)"
proof (induction xs arbitrary: s)
  case Nil show ?case by simp
next
  case (Cons x xs) then show ?case by (cases "f s x") simp_all
qed

lemma extract_image_total: "\<exists>r. extract_image_url_from_ld E obj = Inr r"
proof (cases obj)
  case (JList xs)
  show ?thesis
  proof (cases xs)
    case Nil with JList show ?thesis by (simp add: extract_image_url_from_ld_def)
  next
    case (Cons x0 rest)
    with JList show ?thesis by (cases x0) (simp_all add: extract_image_url_from_ld_def)
  qed
qed (simp_all add: extract_image_url_from_ld_def)

lemma append_text_or_name_total: "\<exists>r. append_text_or_name E (JDict d) acc = Inr r"
  by (simp add: append_text_or_name_def)

lemma pick_step_total: "\<exists>r. pick_step E acc it = Inr r"
  by (cases it) (simp_all add: pick_step_def append_text_or_name_total)

lemma pick_from_list_total: "\<exists>r. pick_from_list E items acc = Inr r"
  unfolding pick_from_list_def by (rule fold_r_total) (rule pick_step_total)

lemma extract_steps_total: "\<exists>r. extract_steps_from_ld E obj = Inr r"
proof (cases obj)
  case (JList items)
  obtain r where "pick_from_list E items [] = Inr r" using pick_from_list_total by blast
  with JList show ?thesis by (simp add: extract_steps_from_ld_def)
next
  case (JDict d)
  obtain a where a: "append_text_or_name E (JDict d) [] = Inr a" using append_text_or_name_total by blast
  show ?thesis
  proof (cases "map_of d (u ''itemListElement'')")
    case None
    with JDict a show ?thesis by (simp add: extract_steps_from_ld_def)
  next
    case (Some il)
    show ?thesis
    proof (cases il)
      case (JList items)
      obtain r where "pick_from_list E items [] = Inr r" using pick_from_list_total by blast
      with JDict Some JList a show ?thesis by (simp add: extract_steps_from_ld_def)
    qed (use JDict Some a in \<open>simp_all add: extract_steps_from_ld_def\<close>)
  qed
qed (simp_all add: extract_steps_from_ld_def)

lemma digits_val_total:
  "list_all (isdigit E) ds \<Longrightarrow> \<exists>n. digits_val E acc ds = Inr n"
  by (induction ds arbitrary: acc) (auto simp: isdigit_def)

lemma py_int_total:
  "ds \<noteq> [] \<Longrightarrow> list_all (isdigit E) ds \<Longrightarrow> \<exists>n. py_int E ds = Inr n"
  by (simp add: py_int_def digits_val_total)

lemma match_digits_then_digits:
  "match_digits_then E c s = Some g \<Longrightarrow> g \<noteq> [] \<and> list_all (isdigit E) g"
  by (auto simp: match_digits_then_def Let_def list_all_iff split: if_splits dest: set_takeWhileD)

lemma search_pt_h_digits:
  "search_pt_h E s = Some g \<Longrightarrow> g \<noteq> [] \<and> list_all (isdigit E) g"
proof (induction s)
  case Nil then show ?case by simp
next
  case (Cons c cs)
  then show ?case
    by (auto split: if_splits option.splits dest: match_digits_then_digits)
qed

lemma search_m_digits:
  "search_m E s = Some g \<Longrightarrow> g \<noteq> [] \<and> list_all (isdigit E) g"
proof (induction s)
  case Nil then show ?case by simp
next
  case (Cons c cs)
  then show ?case
    by (auto split: option.splits dest: match_digits_then_digits)
qed

lemma hours_total: "\<exists>n. (case search_pt_h E s of Some g \<Rightarrow> py_int E g | None \<Rightarrow> Inr 0) = Inr n"
  by (cases "search_pt_h E s") (auto dest!: search_pt_h_digits intro: py_int_total)

lemma minutes_total: "\<exists>n. (case search_m E s of Some g \<Rightarrow> py_int E g | None \<Rightarrow> Inr 0) = Inr n"
  by (cases "search_m E s") (auto dest!: search_m_digits intro: py_int_total)

lemma iso8601_total: "\<exists>r. iso8601_duration_to_text E s = Inr r"
proof -
  obtain h where h: "(case search_pt_h E s of Some g \<Rightarrow> py_int E g | None \<Rightarrow> Inr 0) = Inr h"
    using hours_total by blast
  obtain m where m: "(case search_m E s of Some g \<Rightarrow> py_int E g | None \<Rightarrow> Inr 0) = Inr m"
    using minutes_total by blast
  show ?thesis unfolding iso8601_duration_to_text_def h m by simp
qed


lemma upd_title_fw:
  "\<exists>v. \<forall>s. \<exists>x. upd_title E (JDict d) s = Inr (s\<lparr>ld_title := x\<rparr>) \<and> first_wins opt_truthy (ld_title s) v x"
  by (rule exI[of _ "ensure_str E (case map_of d (u ''name'') of Some v \<Rightarrow> v | None \<Rightarrow> JNull)"])
     (auto simp: upd_title_def first_wins_def intro: exI[of _ "ld_title s" for s])

lemma upd_ingredients_fw:
  "\<exists>v. \<forall>s. \<exists>x. upd_ingredients E (JDict d) s = Inr (s\<lparr>ld_ingredients := x\<rparr>) \<and> first_wins nonempty (ld_ingredients s) v x"
proof (cases "case map_of d (u ''recipeIngredient'') of Some v \<Rightarrow> v | None \<Rightarrow> JNull")
  case (JList xs)
  then show ?thesis
    by (intro exI[of _ "map (\<lambda>x. strip (py_str E x)) (filter (\<lambda>x. strip (py_str E x) \<noteq> []) xs)"])
       (auto simp: upd_ingredients_def first_wins_def nonempty_def intro: exI[of _ "ld_ingredients s" for s])
qed (rule exI[of _ "[]"], auto simp: upd_ingredients_def first_wins_def nonempty_def intro: exI[of _ "ld_ingredients s" for s])+

lemma upd_time_fw:
  "\<exists>v. \<forall>s. \<exists>x. upd_time E (JDict d) s = Inr (s\<lparr>ld_time_text := x\<rparr>) \<and> first_wins opt_truthy (ld_time_text s) v x"
proof -
  define a where "a = (case map_of d (u ''totalTime'') of Some v \<Rightarrow> v | None \<Rightarrow> JNull)"
  define b where "b = (case map_of d (u ''cookTime'') of Some v \<Rightarrow> v | None \<Rightarrow> JNull)"
  define t where "t = (if opt_truthy (ensure_str E a) then ensure_str E a else ensure_str E b)"
  have step: "upd_time E (JDict d) s =
     (if \<not> opt_truthy (ld_time_text s)
      then (case t of None \<Rightarrow> Inr s | Some tx \<Rightarrow>
              if tx = [] then Inr s
              else bind (iso8601_duration_to_text E tx) (\<lambda>r.
                     Inr (s\<lparr>ld_time_text := (if opt_truthy r then r else Some tx)\<rparr>)))
      else Inr s)" for s
    by (simp add: upd_time_def a_def b_def t_def)
  show ?thesis
  proof (cases "opt_truthy t")
    case False
    then have same: "upd_time E (JDict d) s = Inr s" for s
      by (auto simp: step opt_truthy_def split: option.splits)
    have "\<exists>x. upd_time E (JDict d) s = Inr (s\<lparr>ld_time_text := x\<rparr>) \<and> first_wins opt_truthy (ld_time_text s) None x" for s
      by (rule exI[of _ "ld_time_text s"]) (simp add: same first_wins_def opt_truthy_def)
    then show ?thesis by blast
  next
    case True
    then obtain tx where tx: "t = Some tx" "tx \<noteq> []" by (auto simp: opt_truthy_def)
    obtain r where r: "iso8601_duration_to_text E tx = Inr r" using iso8601_total by blast
    define v where "v = (if opt_truthy r then r else Some tx)"
    have v: "opt_truthy v" using tx by (auto simp: v_def opt_truthy_def)
    have upd: "upd_time E (JDict d) s = (if \<not> opt_truthy (ld_time_text s) then Inr (s\<lparr>ld_time_text := v\<rparr>) else Inr s)" for s
      by (simp add: step tx r v_def)
    have "\<exists>x. upd_time E (JDict d) s = Inr (s\<lparr>ld_time_text := x\<rparr>) \<and> first_wins opt_truthy (ld_time_text s) v x" for s
      by (rule exI[of _ "if opt_truthy (ld_time_text s) then ld_time_text s else v"])
         (simp add: upd first_wins_def v)
    then show ?thesis by blast
  qed
qed

lemma upd_yield_fw:
  "\<exists>v. \<forall>s. \<exists>x. upd_yield E (JDict d) s = Inr (s\<lparr>ld_yield_info := x\<rparr>) \<and> first_wins opt_truthy (ld_yield_info s) v x"
proof (cases "case map_of d (u ''recipeYield'') of Some v \<Rightarrow> v | None \<Rightarrow> JNull")
  case (JList ys)
  show ?thesis
  proof (cases ys)
    case Nil
    with JList show ?thesis
      by (intro exI[of _ "ensure_str E (JList [])"])
         (auto simp: upd_yield_def first_wins_def intro: exI[of _ "ld_yield_info s" for s])
  next
    case (Cons y0 rest)
    with JList show ?thesis
      by (intro exI[of _ "ensure_str E y0"])
         (auto simp: upd_yield_def first_wins_def intro: exI[of _ "ld_yield_info s" for s])
  qed
next
  case JNull
  then show ?thesis
    by (intro exI[of _ "ensure_str E JNull"])
       (auto simp: upd_yield_def first_wins_def intro: exI[of _ "ld_yield_info s" for s])
next
  case (JBool x)
  then show ?thesis
    by (intro exI[of _ "ensure_str E (JBool x)"])
       (auto simp: upd_yield_def first_wins_def intro: exI[of _ "ld_yield_info s" for s])
next
  case (JInt x)
  then show ?thesis
    by (intro exI[of _ "ensure_str E (JInt x)"])
       (auto simp: upd_yield_def first_wins_def intro: exI[of _ "ld_yield_info s" for s])
next
  case (JFloat x)
  then show ?thesis
    by (intro exI[of _ "ensure_str E (JFloat x)"])
       (auto simp: upd_yield_def first_wins_def intro: exI[of _ "ld_yield_info s" for s])
next
  case (JStr x)
  then show ?thesis
    by (intro exI[of _ "ensure_str E (JStr x)"])
       (auto simp: upd_yield_def first_wins_def intro: exI[of _ "ld_yield_info s" for s])
next
  case (JDict x)
  then show ?thesis
    by (intro exI[of _ "ensure_str E (JDict x)"])
       (auto simp: upd_yield_def first_wins_def intro: exI[of _ "ld_yield_info s" for s])
qed

lemma upd_steps_fw:
  "\<exists>v. \<forall>s. \<exists>x. upd_steps E (JDict d) s = Inr (s\<lparr>ld_steps := x\<rparr>) \<and> first_wins nonempty (ld_steps s) v x"
proof -
  obtain st where st: "extract_steps_from_ld E (case map_of d (u ''recipeInstructions'') of Some v \<Rightarrow> v | None \<Rightarrow> JNull) = Inr st"
    using extract_steps_total by blast
  show ?thesis
    by (intro exI[of _ st])
       (auto simp: upd_steps_def st first_wins_def nonempty_def intro: exI[of _ "ld_steps s" for s])
qed

lemma upd_image_fw:
  "\<exists>v. \<forall>s. \<exists>x. upd_image E (JDict d) s = Inr (s\<lparr>ld_image_url := x\<rparr>) \<and> first_wins opt_truthy (ld_image_url s) v x"
proof -
  obtain r where r: "extract_image_url_from_ld E (case map_of d (u ''image'') of Some v \<Rightarrow> v | None \<Rightarrow> JNull) = Inr r"
    using extract_image_total by blast
  show ?thesis
    by (intro exI[of _ r])
       (auto simp: upd_image_def r first_wins_def intro: exI[of _ "ld_image_url s" for s])
qed

lemma node_step_not_recipe:
  "\<not> node_is_recipe (JDict d) \<Longrightarrow> node_step E s (JDict d) = Inr s"
  by (simp add: node_step_def node_is_recipe_def)

lemma node_step_fw:
  "\<exists>v1 v2 v3 v4 v5 v6. \<forall>s. \<exists>s'. node_step E s (JDict d) = Inr s' \<and>
     first_wins opt_truthy (ld_title s) v1 (ld_title s') \<and>
     first_wins nonempty (ld_ingredients s) v2 (ld_ingredients s') \<and>
     first_wins opt_truthy (ld_time_text s) v3 (ld_time_text s') \<and>
     first_wins opt_truthy (ld_yield_info s) v4 (ld_yield_info s') \<and>
     first_wins nonempty (ld_steps s) v5 (ld_steps s') \<and>
     first_wins opt_truthy (ld_image_url s) v6 (ld_image_url s')"
proof (cases "node_is_recipe (JDict d)")
  case False
  have "first_wins opt_truthy c None c" "first_wins nonempty l [] l" for c l
    by (simp_all add: first_wins_def opt_truthy_def nonempty_def)
  with node_step_not_recipe[OF False] show ?thesis by metis
next
  case True
  obtain v1 where 1: "\<And>s. \<exists>x. upd_title E (JDict d) s = Inr (s\<lparr>ld_title := x\<rparr>) \<and> first_wins opt_truthy (ld_title s) v1 x"
    using upd_title_fw by blast
  obtain v2 where 2: "\<And>s. \<exists>x. upd_ingredients E (JDict d) s = Inr (s\<lparr>ld_ingredients := x\<rparr>) \<and> first_wins nonempty (ld_ingredients s) v2 x"
    using upd_ingredients_fw by blast
  obtain v3 where 3: "\<And>s. \<exists>x. upd_time E (JDict d) s = Inr (s\<lparr>ld_time_text := x\<rparr>) \<and> first_wins opt_truthy (ld_time_text s) v3 x"
    using upd_time_fw by blast
  obtain v4 where 4: "\<And>s. \<exists>x. upd_yield E (JDict d) s = Inr (s\<lparr>ld_yield_info := x\<rparr>) \<and> first_wins opt_truthy (ld_yield_info s) v4 x"
    using upd_yield_fw by blast
  obtain v5 where 5: "\<And>s. \<exists>x. upd_steps E (JDict d) s = Inr (s\<lparr>ld_steps := x\<rparr>) \<and> first_wins nonempty (ld_steps s) v5 x"
    using upd_steps_fw by blast
  obtain v6 where 6: "\<And>s. \<exists>x. upd_image E (JDict d) s = Inr (s\<lparr>ld_image_url := x\<rparr>) \<and> first_wins opt_truthy (ld_image_url s) v6 x"
    using upd_image_fw by blast
  have rec: "is_recipe (case map_of d (u ''@type'') of None \<Rightarrow> JNull | Some v \<Rightarrow> v)"
    using True by (simp add: node_is_recipe_def)
  have "\<exists>s'. node_step E s (JDict d) = Inr s' \<and>
     first_wins opt_truthy (ld_title s) v1 (ld_title s') \<and>
     first_wins nonempty (ld_ingredients s) v2 (ld_ingredients s') \<and>
     first_wins opt_truthy (ld_time_text s) v3 (ld_time_text s') \<and>
     first_wins opt_truthy (ld_yield_info s) v4 (ld_yield_info s') \<and>
     first_wins nonempty (ld_steps s) v5 (ld_steps s') \<and>
     first_wins opt_truthy (ld_image_url s) v6 (ld_image_url s')" for s
  proof -
    obtain x1 where x1: "upd_title E (JDict d) s = Inr (s\<lparr>ld_title := x1\<rparr>)" "first_wins opt_truthy (ld_title s) v1 x1"
      using 1 by blast
    define s1 where "s1 = s\<lparr>ld_title := x1\<rparr>"
    obtain x2 where x2: "upd_ingredients E (JDict d) s1 = Inr (s1\<lparr>ld_ingredients := x2\<rparr>)" "first_wins nonempty (ld_ingredients s1) v2 x2"
      using 2 by blast
    define s2 where "s2 = s1\<lparr>ld_ingredients := x2\<rparr>"
    obtain x3 where x3: "upd_time E (JDict d) s2 = Inr (s2\<lparr>ld_time_text := x3\<rparr>)" "first_wins opt_truthy (ld_time_text s2) v3 x3"
      using 3 by blast
    define s3 where "s3 = s2\<lparr>ld_time_text := x3\<rparr>"
    obtain x4 where x4: "upd_yield E (JDict d) s3 = Inr (s3\<lparr>ld_yield_info := x4\<rparr>)" "first_wins opt_truthy (ld_yield_info s3) v4 x4"
      using 4 by blast
    define s4 where "s4 = s3\<lparr>ld_yield_info := x4\<rparr>"
    obtain x5 where x5: "upd_steps E (JDict d) s4 = Inr (s4\<lparr>ld_steps := x5\<rparr>)" "first_wins nonempty (ld_steps s4) v5 x5"
      using 5 by blast
    define s5 where "s5 = s4\<lparr>ld_steps := x5\<rparr>"
    obtain x6 where x6: "upd_image E (JDict d) s5 = Inr (s5\<lparr>ld_image_url := x6\<rparr>)" "first_wins opt_truthy (ld_image_url s5) v6 x6"
      using 6 by blast
    have run: "node_step E s (JDict d) = Inr (s5\<lparr>ld_image_url := x6\<rparr>)"
      using rec x1(1) x2(1) x3(1) x4(1) x5(1) x6(1)
      by (simp add: node_step_def s1_def s2_def s3_def s4_def s5_def)
    show ?thesis
      unfolding run using x1(2) x2(2) x3(2) x4(2) x5(2) x6(2)
      by (simp add: s1_def s2_def s3_def s4_def s5_def)
  qed
  then show ?thesis by blast
qed

lemma first_wins_alone:
  assumes "first_wins ne c0 v a" "\<not> ne c0" "first_wins ne cur v new"
  shows "first_wins ne cur a new"
  using assms by (auto simp: first_wins_def split: if_splits)

lemma node_step_alone:
  assumes "is_dict node"
  shows "\<exists>s'. node_step E s node = Inr s' \<and>
     first_wins opt_truthy (ld_title s) (ld_title (alone E node)) (ld_title s') \<and>
     first_wins nonempty (ld_ingredients s) (ld_ingredients (alone E node)) (ld_ingredients s') \<and>
     first_wins opt_truthy (ld_time_text s) (ld_time_text (alone E node)) (ld_time_text s') \<and>
     first_wins opt_truthy (ld_yield_info s) (ld_yield_info (alone E node)) (ld_yield_info s') \<and>
     first_wins nonempty (ld_steps s) (ld_steps (alone E node)) (ld_steps s') \<and>
     first_wins opt_truthy (ld_image_url s) (ld_image_url (alone E node)) (ld_image_url s')"
proof -
  from assms obtain d where d: "node = JDict d" by (cases node) simp_all
  obtain v1 v2 v3 v4 v5 v6 where fw: "\<And>s. \<exists>s'. node_step E s (JDict d) = Inr s' \<and>
     first_wins opt_truthy (ld_title s) v1 (ld_title s') \<and>
     first_wins nonempty (ld_ingredients s) v2 (ld_ingredients s') \<and>
     first_wins opt_truthy (ld_time_text s) v3 (ld_time_text s') \<and>
     first_wins opt_truthy (ld_yield_info s) v4 (ld_yield_info s') \<and>
     first_wins nonempty (ld_steps s) v5 (ld_steps s') \<and>
     first_wins opt_truthy (ld_image_url s) v6 (ld_image_url s')"
    using node_step_fw[of E d] by blast
  from fw[of ld_init] obtain a where a: "node_step E ld_init (JDict d) = Inr a"
     "first_wins opt_truthy (ld_title ld_init) v1 (ld_title a)"
     "first_wins nonempty (ld_ingredients ld_init) v2 (ld_ingredients a)"
     "first_wins opt_truthy (ld_time_text ld_init) v3 (ld_time_text a)"
     "first_wins opt_truthy (ld_yield_info ld_init) v4 (ld_yield_info a)"
     "first_wins nonempty (ld_steps ld_init) v5 (ld_steps a)"
     "first_wins opt_truthy (ld_image_url ld_init) v6 (ld_image_url a)"
    by blast
  have al: "alone E (JDict d) = a" by (simp add: alone_def a(1))
  have e: "\<not> opt_truthy (ld_title ld_init)" "\<not> nonempty (ld_ingredients ld_init)"
     "\<not> opt_truthy (ld_time_text ld_init)" "\<not> opt_truthy (ld_yield_info ld_init)"
     "\<not> nonempty (ld_steps ld_init)" "\<not> opt_truthy (ld_image_url ld_init)"
    by (simp_all add: ld_init_def opt_truthy_def nonempty_def)
  from fw[of s] obtain s' where s': "node_step E s (JDict d) = Inr s'"
     "first_wins opt_truthy (ld_title s) v1 (ld_title s')"
     "first_wins nonempty (ld_ingredients s) v2 (ld_ingredients s')"
     "first_wins opt_truthy (ld_time_text s) v3 (ld_time_text s')"
     "first_wins opt_truthy (ld_yield_info s) v4 (ld_yield_info s')"
     "first_wins nonempty (ld_steps s) v5 (ld_steps s')"
     "first_wins opt_truthy (ld_image_url s) v6 (ld_image_url s')"
    by blast
  show ?thesis
    unfolding d al
    using s'(1) first_wins_alone[OF a(2) e(1) s'(2)] first_wins_alone[OF a(3) e(2) s'(3)]
      first_wins_alone[OF a(4) e(3) s'(4)] first_wins_alone[OF a(5) e(4) s'(5)]
      first_wins_alone[OF a(6) e(5) s'(6)] first_wins_alone[OF a(7) e(6) s'(7)]
    by blast
qed


lemma fold_r_concat:
  "fold_r (\<lambda>s x. fold_r g (h x) s) xs s = fold_r g (concat (map h xs)) s"
proof (induction xs arbitrary: s)
  case Nil show ?case by simp
next
  case (Cons x xs)
  show ?case
    by (cases "fold_r g (h x) s") (simp_all add: fold_r_append Cons.IH)
qed

lemma nodes_of_total: "\<exists>ns. nodes_of obj = Inr ns \<and> list_all is_dict ns"
proof (cases obj)
  case (JDict d)
  show ?thesis
  proof (cases "map_of d (u ''@graph'')")
    case None
    then have "u ''@graph'' \<notin> fst ` set d" by (simp add: map_of_eq_None_iff)
    with JDict show ?thesis by (simp add: nodes_of_def)
  next
    case (Some g)
    then have "u ''@graph'' \<in> fst ` set d" by (metis map_of_eq_None_iff option.distinct(1))
    with JDict Some show ?thesis
      by (cases g) (simp_all add: nodes_of_def list_all_iff)
  qed
qed (simp_all add: nodes_of_def list_all_iff)

lemma nodes_of_list: "nodes_of obj = Inr (nodes_list obj)"
  using nodes_of_total[of obj] by (auto simp: nodes_list_def)

lemma nodes_list_dict: "n \<in> set (nodes_list obj) \<Longrightarrow> is_dict n"
  using nodes_of_total[of obj] by (auto simp: nodes_list_def list_all_iff)

lemma cand_step_nodes: "cand_step E s obj = fold_r (node_step E) (nodes_list obj) s"
  by (simp add: cand_step_def nodes_of_list)

lemma blob_step_nodes: "blob_step E s raw = fold_r (node_step E) (blob_nodes E raw) s"
proof (cases "json_loads E raw")
  case None then show ?thesis by (simp add: blob_step_def blob_nodes_def)
next
  case (Some data)
  have "fold_r (cand_step E) (candidates data) s = fold_r (node_step E) (concat (map nodes_list (candidates data))) s"
    using fold_r_concat[of "node_step E" nodes_list "candidates data" s]
    by (simp add: cand_step_nodes[abs_def])
  with Some show ?thesis by (simp add: blob_step_def blob_nodes_def)
qed

lemma parse_scan: "parse_ld_json E ld_texts = fold_r (node_step E) (scan_nodes E ld_texts) ld_init"
  using fold_r_concat[of "node_step E" "blob_nodes E" ld_texts ld_init]
  by (simp add: parse_ld_json_def scan_nodes_def blob_step_nodes[abs_def])

lemma scan_nodes_dict: "n \<in> set (scan_nodes E ld_texts) \<Longrightarrow> is_dict n"
  by (auto simp: scan_nodes_def blob_nodes_def split: option.splits dest: nodes_list_dict)



lemma parse_total: "\<exists>r. parse_ld_json E ld_texts = Inr r"
  unfolding parse_scan
  by (rule fold_r_total) (use scan_nodes_dict node_step_alone in blast)

text \<open>The definitions unfolded to run the extractor on the example inputs.\<close>

lemmas eval_defs = u_def strip_def isspace_def demo_env_def soup_def stew_def idle_def
  bare_def blank_def
  parse_ld_json_def blob_step_def candidates_def cand_step_def nodes_of_def node_step_def
  is_recipe_def upd_title_def upd_ingredients_def upd_time_def upd_yield_def upd_steps_def
  upd_image_def ensure_str_def opt_truthy_def ld_init_def extract_image_url_from_ld_def
  extract_steps_from_ld_def pick_from_list_def pick_step_def append_text_or_name_def
  iso8601_duration_to_text_def match_digits_then_def isdigit_def decimal_def py_int_def
  show_int_def











lemma match_digits_miss_end:
  "list_all (isdigit E) ds \<Longrightarrow> match_digits_then E k ds = None"
proof -
  assume a: "list_all (isdigit E) ds"
  then have "dropWhile (isdigit E) ds = []" by (simp add: list_all_iff)
  then show ?thesis by (simp add: match_digits_then_def)
qed


lemma search_m_digits_only:
  "list_all (isdigit E) ds \<Longrightarrow> search_m E ds = None"
proof (induction ds)
  case Nil then show ?case by simp
next
  case (Cons x xs)
  then show ?case using match_digits_miss_end[of E "x # xs" 77] by simp
qed












lemma demo_links:
  "discover_links demo_env [Some (u ''/recipes/1''), Some (u ''/recipes/2'')] =
     [u ''https://icook.tw/recipes/1'', u ''https://icook.tw/recipes/2'']"
  by (simp add: discover_links_def LIMIT_PER_ING_def dict_fromkeys_def is_recipe_path_def
          urljoin_icook_def u_def isdigit_def decimal_def demo_env_def)

lemma demo_visit1:
  "visit_page demo_env demo_page st (u ''https://icook.tw/recipes/1'') =
     Inr (persist True egg_doc st)"
  by (simp add: visit_page_def demo_page_def parse_ld_json_def build_doc_def title_fallback_def
        image_fallback_def list_fallback_def ld_init_def opt_truthy_def egg_doc_def
        strip_def isspace_def u_def sublist_code)

lemma demo_visit2:
  "visit_page demo_env demo_page st (u ''https://icook.tw/recipes/2'') = Inr st"
  by (simp add: visit_page_def demo_page_def parse_ld_json_def build_doc_def title_fallback_def
        image_fallback_def list_fallback_def ld_init_def opt_truthy_def persist_def
        strip_def isspace_def u_def sublist_code)


lemma store_grows_refl: "store_grows m m"
  by (cases m) (simp_all add: store_grows_def)

lemma store_grows_trans:
  "store_grows a b \<Longrightarrow> store_grows b c \<Longrightarrow> store_grows a c"
  by (cases a; cases b; cases c) (auto simp: store_grows_def, metis)

lemma persist_empty: "ingredients d = [] \<Longrightarrow> persist ok d st = st"
  by (simp add: persist_def)

lemma persist_nonempty:
  "ingredients d \<noteq> [] \<Longrightarrow> saved (persist ok d st) = saved st @ [d] \<and> store_grows (db st) (db (persist ok d st))"
  by (cases "db st") (auto simp: persist_def store_grows_def upsert_firestore_def)

lemma persist_step:
  "\<exists>ds. saved (persist ok d st) = saved st @ ds \<and> (\<forall>x\<in>set ds. ingredients x \<noteq> [] \<and> x = d) \<and>
        store_grows (db st) (db (persist ok d st))"
proof (cases "ingredients d = []")
  case True
  then show ?thesis by (simp add: persist_empty store_grows_refl)
next
  case False
  then show ?thesis using persist_nonempty[OF False, of ok st] by simp
qed

lemma visit_page_step:
  assumes "visit_page E fetch st url = Inr st'"
  shows "\<exists>ds. saved st' = saved st @ ds \<and> (\<forall>x\<in>set ds. ingredients x \<noteq> [] \<and> link x = url) \<and>
           store_grows (db st) (db st')"
proof (cases "scripts (fetch url)")
  case Raises
  with assms have "st' = st" by (simp add: visit_page_def)
  then show ?thesis by (simp add: store_grows_refl)
next
  case (Returns ss)
  obtain r where r: "parse_ld_json E (script_texts ss) = Inr r" using parse_total by blast
  let ?d = "build_doc (fetch url) url r"
  have st': "st' = persist (set_ok (fetch url)) ?d st"
    using assms Returns r by (simp add: visit_page_def)
  have l: "link ?d = url" by (simp add: build_doc_def)
  show ?thesis unfolding st' using persist_step[of "set_ok (fetch url)" ?d st] l by auto
qed

lemma visit_pages_inv:
  assumes "fold_r (visit_page E fetch) urls st = Inr st'"
  shows "\<exists>ds. saved st' = saved st @ ds \<and> (\<forall>x\<in>set ds. ingredients x \<noteq> []) \<and>
           store_grows (db st) (db st')"
  using assms
proof (induction urls arbitrary: st)
  case Nil
  then show ?case by (simp add: store_grows_refl)
next
  case (Cons url urls)
  from Cons.prems obtain s1 where s1: "visit_page E fetch st url = Inr s1"
      "fold_r (visit_page E fetch) urls s1 = Inr st'"
    by (cases "visit_page E fetch st url") simp_all
  from visit_page_step[OF s1(1)] obtain d1 where d1: "saved s1 = saved st @ d1"
      "\<forall>x\<in>set d1. ingredients x \<noteq> []" "store_grows (db st) (db s1)" by blast
  from Cons.IH[OF s1(2)] obtain d2 where d2: "saved st' = saved s1 @ d2"
      "\<forall>x\<in>set d2. ingredients x \<noteq> []" "store_grows (db s1) (db st')" by blast
  have "saved st' = saved st @ (d1 @ d2)" using d1(1) d2(1) by simp
  moreover have "\<forall>x\<in>set (d1 @ d2). ingredients x \<noteq> []" using d1(2) d2(2) by auto
  moreover have "store_grows (db st) (db st')" using store_grows_trans[OF d1(3) d2(3)] .
  ultimately show ?case by blast
qed

lemma scrape_keyword_inv:
  assumes "scrape_keyword E k dbh = Inr st'"
  shows "(\<forall>x\<in>set (saved st'). ingredients x \<noteq> []) \<and> store_grows dbh (db st')"
proof (cases "search k")
  case Raises
  with assms show ?thesis by (simp add: scrape_keyword_def)
next
  case (Returns anchors)
  with assms have "fold_r (visit_page E (pages k)) (discover_links E anchors) \<lparr>saved = [], db = dbh\<rparr> = Inr st'"
    by (simp add: scrape_keyword_def)
  from visit_pages_inv[OF this] show ?thesis by auto
qed

lemma crawl_all_inv:
  assumes "crawl_all E kws acc dbh = Inr (docs, dbh')"
  shows "\<exists>ds. docs = acc @ ds \<and> (\<forall>x\<in>set ds. ingredients x \<noteq> []) \<and> store_grows dbh dbh'"
  using assms
proof (induction kws arbitrary: acc dbh)
  case Nil
  then show ?case by (simp add: store_grows_refl)
next
  case (Cons k ks)
  from Cons.prems obtain s1 where s1: "scrape_keyword E k dbh = Inr s1"
      "crawl_all E ks (acc @ saved s1) (db s1) = Inr (docs, dbh')"
    by (cases "scrape_keyword E k dbh") simp_all
  from scrape_keyword_inv[OF s1(1)] have i1: "\<forall>x\<in>set (saved s1). ingredients x \<noteq> []"
      "store_grows dbh (db s1)" by simp_all
  from Cons.IH[OF s1(2)] obtain ds where ds: "docs = (acc @ saved s1) @ ds"
      "\<forall>x\<in>set ds. ingredients x \<noteq> []" "store_grows (db s1) dbh'" by blast
  have "docs = acc @ (saved s1 @ ds)" using ds(1) by simp
  moreover have "\<forall>x\<in>set (saved s1 @ ds). ingredients x \<noteq> []" using i1(1) ds(2) by auto
  moreover have "store_grows dbh dbh'" using store_grows_trans[OF i1(2) ds(3)] .
  ultimately show ?case by blast
qed

lemma load_history_usable:
  "history_usable f \<Longrightarrow> load_history f = JList (history_records f)"
  by (auto simp: history_usable_def load_history_def history_records_def
           split: option.splits fcontent.splits json.splits)

lemma main_eq:
  assumes "crawl_all E kws [] (remote W) = Inr (docs, dbh)" "history_usable (history_file W)"
  shows "main E kws ws wh W =
     Inr \<lparr>sample_file = write_file ws (JList (map doc_json docs)) (sample_file W),
          history_file = write_file wh
             (JList (history_records (history_file W) @ map doc_json docs)) (history_file W),
          remote = dbh\<rparr>"
  using assms by (simp add: main_def load_history_usable)

lemma py_extend_returns: "py_extend v ys = Inr h \<Longrightarrow> is_list v"
  by (cases v) simp_all

lemma main_returns:
  assumes "main E kws ws wh W = Inr W'"
  shows "\<exists>docs dbh. crawl_all E kws [] (remote W) = Inr (docs, dbh) \<and> history_usable (history_file W)"
proof (cases "crawl_all E kws [] (remote W)")
  case (Inl e)
  with assms show ?thesis by (simp add: main_def)
next
  case (Inr p)
  obtain docs dbh where p: "p = (docs, dbh)" by (cases p)
  have "\<exists>h. py_extend (load_history (history_file W)) (map doc_json docs) = Inr h"
    using assms Inr p
    by (cases "py_extend (load_history (history_file W)) (map doc_json docs)") (simp_all add: main_def)
  then have "is_list (load_history (history_file W))" using py_extend_returns by blast
  then have "history_usable (history_file W)"
    by (auto simp: history_usable_def load_history_def split: option.splits fcontent.splits)
  with Inr p show ?thesis by blast
qed

section \<open>Remote identifiers\<close>

lemma u_https: "u ''https://'' = [104, 116, 116, 112, 115, 58, 47, 47]"
  by (simp add: u_def)

lemma u_http: "u ''http://'' = [104, 116, 116, 112, 58, 47, 47]"
  by (simp add: u_def)

lemma replace_https_https:
  "replace (u ''https://'') [] (u ''https://'' @ r) = replace (u ''https://'') [] r"
  by (simp add: u_https replace.simps)

lemma replace_https_http:
  "replace (u ''https://'') [] (u ''http://'' @ r) = u ''http://'' @ replace (u ''https://'') [] r"
  by (simp add: u_https u_http replace.simps)

lemma replace_http_http:
  "replace (u ''http://'') [] (u ''http://'' @ r) = replace (u ''http://'') [] r"
  by (simp add: u_http replace.simps)

lemma replace_slash_free: "47 \<notin> set (replace (u ''/'') (u ''_'') s)"
proof (induction s)
  case Nil
  show ?case by (simp add: replace.simps u_def)
next
  case (Cons c cs)
  then show ?case by (auto simp add: replace.simps u_def)
qed

text \<open>
  C7. The identifier under which a record is stored is a function of the record's link
  alone. A link with the scheme \<^verbatim>\<open>http://\<close> and the same link with the scheme
  \<^verbatim>\<open>https://\<close> get the same identifier, which is the identifier of the link without
  its scheme; and no identifier contains a path separator.
\<close>

theorem doc_id_scheme_insensitive:
  "upsert_firestore True recipes d = Returns (doc_id (link d), recipes(doc_id (link d) \<mapsto> d)) \<and>
   doc_id (u ''http://'' @ r) = doc_id (u ''https://'' @ r) \<and>
   doc_id (u ''https://'' @ r) = doc_id r \<and>
   47 \<notin> set (doc_id l)"
  by (simp add: upsert_firestore_def doc_id_def replace_https_https replace_https_http
        replace_http_http replace_slash_free)

theorem doc_id_scheme_insensitive_witness:
  "doc_id (u ''http://icook.tw/recipes/1'') = doc_id (u ''https://icook.tw/recipes/1'') \<and>
   doc_id (u ''https://icook.tw/recipes/1'') = u ''icook.tw_recipes_1''"
proof -
  have a: "u ''http://icook.tw/recipes/1'' = u ''http://'' @ u ''icook.tw/recipes/1''"
    and b: "u ''https://icook.tw/recipes/1'' = u ''https://'' @ u ''icook.tw/recipes/1''"
    by (simp_all add: u_def)
  have c: "doc_id (u ''icook.tw/recipes/1'') = u ''icook.tw_recipes_1''"
    by (simp add: doc_id_def replace.simps u_def)
  show ?thesis
    using doc_id_scheme_insensitive [where r = "u ''icook.tw/recipes/1''"] c
    unfolding a b by simp
qed

section \<open>The extractor: first-wins and undecodable blobs\<close>



lemma demo_recipe_nodes:
  "recipe_nodes demo_env [u ''soup'', u ''junk'', u ''stew''] = [soup, stew]"
  by (simp add: recipe_nodes_def scan_nodes_def blob_nodes_def nodes_list_def node_is_recipe_def
      eval_defs)






section \<open>The extractor: totality\<close>










section \<open>The time field\<close>




section \<open>The image field\<close>

text \<open>
  C4. An image given as a string, or as a list whose first member is a string, is
  returned as it is: blanks around it stay, and a string of blanks counts as found, so
  that a later node cannot set the image. An image given as an object goes through
  \<^verbatim>\<open>ensure_str\<close> and is trimmed.
\<close>

theorem image_string_untrimmed:
  "parse_ld_json demo_env [u ''bare''] =
     Inr \<lparr>ld_title = None, ld_ingredients = [], ld_time_text = None,
          ld_yield_info = None, ld_steps = [],
          ld_image_url = Some (u '' http://x/p.jpg '')\<rparr> \<and>
   parse_ld_json demo_env [u ''blank'', u ''stew''] =
     Inr \<lparr>ld_title = Some (u ''Stew''), ld_ingredients = [u ''salt'', u ''water''],
          ld_time_text = Some (u ''45 '' @ minutes_txt),
          ld_yield_info = Some (u ''4''), ld_steps = [u ''Boil.'', u ''Serve.''],
          ld_image_url = Some (u '' '')\<rparr> \<and>
   extract_image_url_from_ld demo_env (JDict [(u ''url'', JStr (u '' http://x/s.jpg ''))]) =
     Inr (Some (u ''http://x/s.jpg''))"
  by (simp add: eval_defs show_nat.simps)

section \<open>Link discovery\<close>

lemma dict_fromkeys_snoc:
  "dict_fromkeys (xs @ [x]) =
     (if x \<in> set (dict_fromkeys xs) then dict_fromkeys xs else dict_fromkeys xs @ [x])"
  by (simp add: dict_fromkeys_def)

lemma set_dict_fromkeys: "set (dict_fromkeys xs) = set xs"
  by (induction xs rule: rev_induct) (auto simp: dict_fromkeys_snoc, simp add: dict_fromkeys_def)

lemma distinct_dict_fromkeys: "distinct (dict_fromkeys xs)"
  by (induction xs rule: rev_induct) (auto simp: dict_fromkeys_snoc, simp add: dict_fromkeys_def)

lemma first_occurrences_snoc:
  "first_occurrences (xs @ [x]) = first_occurrences xs @ (if x \<in> set xs then [] else [x])"
proof -
  let ?P = "\<lambda>i. (xs @ [x]) ! i \<notin> set (take i (xs @ [x]))"
  have f: "filter ?P [0..<length xs] = filter (\<lambda>i. xs ! i \<notin> set (take i xs)) [0..<length xs]"
    by (rule filter_cong) (auto simp: nth_append)
  have m: "map (\<lambda>i. (xs @ [x]) ! i) (filter (\<lambda>i. xs ! i \<notin> set (take i xs)) [0..<length xs])
         = map (\<lambda>i. xs ! i) (filter (\<lambda>i. xs ! i \<notin> set (take i xs)) [0..<length xs])"
    by (rule map_cong) (auto simp: nth_append)
  have l: "filter ?P [length xs] = (if x \<in> set xs then [] else [length xs])"
    by simp
  have "first_occurrences (xs @ [x]) =
      map (\<lambda>i. (xs @ [x]) ! i) (filter ?P ([0..<length xs] @ [length xs]))"
    by (simp add: first_occurrences_def)
  also have "\<dots> = map (\<lambda>i. (xs @ [x]) ! i) (filter ?P [0..<length xs])
                  @ map (\<lambda>i. (xs @ [x]) ! i) (filter ?P [length xs])"
    by (simp only: filter_append map_append)
  also have "\<dots> = first_occurrences xs @ (if x \<in> set xs then [] else [x])"
    unfolding f m l by (simp add: first_occurrences_def)
  finally show ?thesis .
qed

lemma dict_fromkeys_first_occurrences: "dict_fromkeys xs = first_occurrences xs"
proof (induction xs rule: rev_induct)
  case Nil
  show ?case by (simp add: dict_fromkeys_def first_occurrences_def)
next
  case (snoc x xs)
  have "set (first_occurrences xs) = set xs"
    using set_dict_fromkeys[of xs] by (simp add: snoc.IH)
  then show ?case
    by (simp add: dict_fromkeys_snoc first_occurrences_snoc snoc.IH)
qed


lemma is_recipe_path_nonempty: "is_recipe_path E h \<Longrightarrow> h \<noteq> []"
  by (auto simp: is_recipe_path_def u_def)

lemma collect_links_eq:
  "collect_links E anchors acc = acc @ map urljoin_icook (recipe_hrefs E anchors)"
proof (induction anchors arbitrary: acc)
  case Nil
  show ?case by (simp add: recipe_hrefs_def)
next
  case (Cons a as)
  show ?case
  proof (cases a)
    case None
    then show ?thesis using Cons[of acc] by (simp add: recipe_hrefs_def)
  next
    case (Some h)
    then show ?thesis
      using Cons[of acc] Cons[of "acc @ [urljoin_icook h]"] is_recipe_path_nonempty[of E h]
      by (auto simp: recipe_hrefs_def)
  qed
qed

text \<open>
  C8. The links visited for a keyword are the first twenty (or fewer) of the first
  occurrences, in order, of the addresses of the anchors that match the recipe-detail
  pattern: no link occurs twice, and there are at most twenty.
\<close>

theorem discover_links_dedup_cap:
  "discover_links E anchors =
     take 20 (first_occurrences (map urljoin_icook (recipe_hrefs E anchors))) \<and>
   prefix (discover_links E anchors) (first_occurrences (map urljoin_icook (recipe_hrefs E anchors))) \<and>
   length (discover_links E anchors) \<le> 20 \<and>
   distinct (discover_links E anchors) \<and>
   set (discover_links E anchors) \<subseteq> urljoin_icook ` set (recipe_hrefs E anchors)"
proof -
  have d: "discover_links E anchors =
     take 20 (first_occurrences (map urljoin_icook (recipe_hrefs E anchors)))"
    by (simp add: discover_links_def LIMIT_PER_ING_def collect_links_eq
          dict_fromkeys_first_occurrences)
  have s: "set (first_occurrences (map urljoin_icook (recipe_hrefs E anchors)))
            = urljoin_icook ` set (recipe_hrefs E anchors)"
    using set_dict_fromkeys[of "map urljoin_icook (recipe_hrefs E anchors)"]
    by (simp add: dict_fromkeys_first_occurrences)
  have di: "distinct (first_occurrences (map urljoin_icook (recipe_hrefs E anchors)))"
    using distinct_dict_fromkeys[of "map urljoin_icook (recipe_hrefs E anchors)"]
    by (simp add: dict_fromkeys_first_occurrences)
  show ?thesis
    unfolding d using s di
    by (auto simp: take_is_prefix dest: in_set_takeD)
qed

theorem discover_links_dedup_cap_witness:
  "discover_links demo_env
     [Some (u ''/recipes/12''), None, Some (u ''/recipes/about''), Some (u ''/recipes/7''),
      Some (u ''/recipes/12'')] =
     [u ''https://icook.tw/recipes/12'', u ''https://icook.tw/recipes/7''] \<and>
   prefix [u ''https://icook.tw/recipes/12'', u ''https://icook.tw/recipes/7'']
     (first_occurrences (map urljoin_icook (recipe_hrefs demo_env
        [Some (u ''/recipes/12''), None, Some (u ''/recipes/about''), Some (u ''/recipes/7''),
         Some (u ''/recipes/12'')])))"
proof -
  let ?A = "[Some (u ''/recipes/12''), None, Some (u ''/recipes/about''), Some (u ''/recipes/7''),
      Some (u ''/recipes/12'')]"
  have e: "discover_links demo_env ?A =
     [u ''https://icook.tw/recipes/12'', u ''https://icook.tw/recipes/7'']"
    by (simp add: discover_links_def LIMIT_PER_ING_def dict_fromkeys_def is_recipe_path_def
          urljoin_icook_def u_def isdigit_def decimal_def demo_env_def)
  have "prefix (discover_links demo_env ?A)
     (first_occurrences (map urljoin_icook (recipe_hrefs demo_env ?A)))"
    using discover_links_dedup_cap [of demo_env ?A] by blast
  with e show ?thesis by simp
qed

section \<open>What is persisted\<close>

text \<open>
  C1. A record whose ingredients are empty after extraction and fallback is persisted
  nowhere: it changes neither the saved list nor the remote collection, while a record
  with ingredients is appended to the saved list. Hence a page visit appends only
  records with ingredients (with the page's link) and writes only such records to the
  remote collection; so does the crawl of a keyword; and after a run the snapshot and
  what the run adds to the history are the records of a list in which every record has
  ingredients.
\<close>

theorem empty_ingredients_never_persisted:
  "(ingredients d = [] \<longrightarrow> persist ok d st = st) \<and>
   (ingredients d \<noteq> [] \<longrightarrow> saved (persist ok d st) = saved st @ [d]) \<and>
   (visit_page E fetch st url = Inr st' \<longrightarrow>
      (\<exists>ds. saved st' = saved st @ ds \<and> (\<forall>x\<in>set ds. ingredients x \<noteq> [] \<and> link x = url)) \<and>
      store_grows (db st) (db st')) \<and>
   (scrape_keyword E k dbh = Inr sk \<longrightarrow>
      (\<forall>x\<in>set (saved sk). ingredients x \<noteq> []) \<and> store_grows dbh (db sk)) \<and>
   (main E kws ws wh W = Inr W' \<longrightarrow>
      (\<exists>docs. (\<forall>x\<in>set docs. ingredients x \<noteq> []) \<and>
         sample_file W' = write_file ws (JList (map doc_json docs)) (sample_file W) \<and>
         history_file W' = write_file wh
            (JList (history_records (history_file W) @ map doc_json docs)) (history_file W)) \<and>
      store_grows (remote W) (remote W'))"
proof -
  have 1: "ingredients d = [] \<longrightarrow> persist ok d st = st" by (simp add: persist_empty)
  have 2: "ingredients d \<noteq> [] \<longrightarrow> saved (persist ok d st) = saved st @ [d]"
    using persist_nonempty by blast
  have 3: "visit_page E fetch st url = Inr st' \<longrightarrow>
      (\<exists>ds. saved st' = saved st @ ds \<and> (\<forall>x\<in>set ds. ingredients x \<noteq> [] \<and> link x = url)) \<and>
      store_grows (db st) (db st')"
    using visit_page_step[of E fetch st url st'] by blast
  have 4: "scrape_keyword E k dbh = Inr sk \<longrightarrow>
      (\<forall>x\<in>set (saved sk). ingredients x \<noteq> []) \<and> store_grows dbh (db sk)"
    using scrape_keyword_inv[of E k dbh sk] by blast
  have 5: "main E kws ws wh W = Inr W' \<longrightarrow>
      (\<exists>docs. (\<forall>x\<in>set docs. ingredients x \<noteq> []) \<and>
         sample_file W' = write_file ws (JList (map doc_json docs)) (sample_file W) \<and>
         history_file W' = write_file wh
            (JList (history_records (history_file W) @ map doc_json docs)) (history_file W)) \<and>
      store_grows (remote W) (remote W')"
  proof
    assume m: "main E kws ws wh W = Inr W'"
    from main_returns[OF m] obtain docs dbh where c: "crawl_all E kws [] (remote W) = Inr (docs, dbh)"
      and h: "history_usable (history_file W)" by blast
    from crawl_all_inv[OF c] have i: "\<forall>x\<in>set docs. ingredients x \<noteq> []" "store_grows (remote W) dbh"
      by simp_all
    from m main_eq[OF c h, of ws wh] have W': "W' =
       \<lparr>sample_file = write_file ws (JList (map doc_json docs)) (sample_file W),
          history_file = write_file wh
             (JList (history_records (history_file W) @ map doc_json docs)) (history_file W),
          remote = dbh\<rparr>" by simp
    show "(\<exists>docs. (\<forall>x\<in>set docs. ingredients x \<noteq> []) \<and>
         sample_file W' = write_file ws (JList (map doc_json docs)) (sample_file W) \<and>
         history_file W' = write_file wh
            (JList (history_records (history_file W) @ map doc_json docs)) (history_file W)) \<and>
      store_grows (remote W) (remote W')"
      unfolding W' using i by auto
  qed
  from 1 2 3 4 5 show ?thesis by blast
qed

lemma demo_scrape:
  "scrape_keyword demo_env demo_kw None = Inr \<lparr>saved = [egg_doc], db = None\<rparr>"
  by (simp add: scrape_keyword_def demo_kw_def demo_links demo_visit1 demo_visit2 persist_def
        egg_doc_def)

theorem empty_ingredients_never_persisted_witness:
  "ingredients (egg_doc\<lparr>ingredients := []\<rparr>) = [] \<and>
   persist True (egg_doc\<lparr>ingredients := []\<rparr>) \<lparr>saved = [], db = None\<rparr> = \<lparr>saved = [], db = None\<rparr> \<and>
   scrape_keyword demo_env demo_kw None = Inr \<lparr>saved = [egg_doc], db = None\<rparr> \<and>
   ingredients egg_doc \<noteq> []"
proof -
  have a: "ingredients (egg_doc\<lparr>ingredients := []\<rparr>) = []" by simp
  have b: "persist True (egg_doc\<lparr>ingredients := []\<rparr>) \<lparr>saved = [], db = None\<rparr> = \<lparr>saved = [], db = None\<rparr>"
    using empty_ingredients_never_persisted
      [where d = "egg_doc\<lparr>ingredients := []\<rparr>" and ok = True and st = "\<lparr>saved = [], db = None\<rparr>"] a
    by blast
  have c: "\<forall>x\<in>set (saved \<lparr>saved = [egg_doc], db = None\<rparr>). ingredients x \<noteq> []"
    using empty_ingredients_never_persisted
      [where E = demo_env and k = demo_kw and dbh = None and sk = "\<lparr>saved = [egg_doc], db = None\<rparr>"]
      demo_scrape
    by blast
  from a b c demo_scrape show ?thesis by simp
qed

end
